theory Spec2Isabelle
  imports
    Main
    "HOL-Library.Word"
    "HOL-Library.AList"
    "HOL-Library.Char_ord"
    "HOL-Library.List_Lexorder"
    "HOL-Library.Multiset"
begin

unbundle bit_operations_syntax

section \<open>MyRPC: the embedding\<close>

text \<open>
  Go strings are byte sequences: \<^typ>\<open>string\<close>.  A Go \<open>error\<close> built by
  \<open>errors.New(msg)\<close> is the value \<open>errors_New msg\<close>, one built by \<open>fmt.Errorf(format)\<close>
  with no further argument is \<open>fmt_Errorf format\<close>; the \<open>nil\<close> error is \<open>None\<close> of
  \<^typ>\<open>'a option\<close>.
\<close>

datatype error = errors_New string | fmt_Errorf string

text \<open>
  \<open>err.Error()\<close>, the text of an error.  For \<open>fmt.Errorf(format)\<close> it is the format
  itself when the format holds no verb.
\<close>

fun err_Error :: "error \<Rightarrow> string" where
  "err_Error (errors_New msg) = msg"
| "err_Error (fmt_Errorf format) = format"

text \<open>A panic ends the function that raises it: a result of its own.\<close>

datatype panic = index_out_of_range | log_Panic string

subsection \<open>server.go: service lookup\<close>

text \<open>
  \<open>service.go\<close>: a method descriptor and a service.  The reflected types are kept by
  name; \<open>numCalls\<close> is the \<open>uint64\<close> counter.
\<close>

record methodType =
  ArgType :: string
  ReplyType :: string
  numCalls :: "64 word"

record service =
  name :: string
  methodMap :: "string \<rightharpoonup> methodType"

record Server =
  serviceMap :: "string \<rightharpoonup> service"

text \<open>
  \<open>strings.LastIndex(s, ".")\<close> for a one-byte separator: the index of the last
  occurrence, or \<open>-1\<close>.
\<close>

fun LastIndex :: "string \<Rightarrow> char \<Rightarrow> int" where
  "LastIndex [] c = - 1"
| "LastIndex (x # xs) c =
     (let r = LastIndex xs c in
      if 0 \<le> r then r + 1 else if x = c then 0 else - 1)"

text \<open>
  \<open>Server.findService\<close> has the named results \<open>(svc, mtype, err)\<close>; every return gives
  all three, \<open>nil\<close> where the code never assigned.
\<close>

definition findService ::
  "Server \<Rightarrow> string \<Rightarrow> service option \<times> methodType option \<times> error option" where
  "findService server serviceMethod =
     (let dot = LastIndex serviceMethod (CHR ''.'') in
      if dot < 0 then
        (None, None,
         Some (errors_New (''rpc server: server/method request ill-formed: '' @ serviceMethod)))
      else
        let serviceName = take (nat dot) serviceMethod;
            methodName = drop (nat (dot + 1)) serviceMethod
        in case serviceMap server serviceName of
             None \<Rightarrow>
               (None, None, Some (errors_New (''rpc server: can't find service '' @ serviceName)))
           | Some svc \<Rightarrow>
               (case methodMap svc methodName of
                  None \<Rightarrow>
                    (Some svc, None,
                     Some (errors_New (''rpc server: can't find method '' @ methodName)))
                | Some mtype \<Rightarrow> (Some svc, Some mtype, None)))"

subsection \<open>client.go: options\<close>

text \<open>
  \<open>time.Duration\<close> is a count of nanoseconds (\<open>int64\<close>); no claim here depends on
  its range, so it is an \<^typ>\<open>int\<close>.  \<open>codec.Type\<close> is a string.
\<close>

type_synonym Duration = int

definition Second :: Duration where
  "Second = 1000000000"

definition Minute :: Duration where
  "Minute = 60 * Second"

definition GobType :: string where
  "GobType = ''application/gob''"

definition JsonType :: string where
  "JsonType = ''application/json''"

text \<open>\<open>const MagicNumber = 0x79779200\<close> (the record field has the same name in Go).\<close>

definition const_MagicNumber :: int where
  "const_MagicNumber = 0x79779200"

record Option =
  MagicNumber :: int
  CodecType :: string
  ConnectTimeout :: Duration
  HandleTimeout :: Duration

definition DefaultOption :: Option where
  "DefaultOption =
     \<lparr>MagicNumber = const_MagicNumber, CodecType = GobType,
      ConnectTimeout = 10 * Second, HandleTimeout = 0\<rparr>"

text \<open>
  \<open>parseOptions(opts ...*Option)\<close>: the variadic arguments are a list of pointers,
  \<open>None\<close> for \<open>nil\<close>.  The first test is \<open>len(opts) == 0 || opts[0] == nil\<close>, the
  second \<open>len(opts) != 1\<close>.  The code writes into the caller's \<open>Option\<close>; the model
  returns the value the returned pointer refers to.
\<close>

definition parseOptions :: "Option option list \<Rightarrow> error + Option" where
  "parseOptions opts =
     (case opts of
        [] \<Rightarrow> Inr DefaultOption
      | None # _ \<Rightarrow> Inr DefaultOption
      | Some opt0 # _ \<Rightarrow>
          if length opts \<noteq> 1 then Inl (errors_New ''number of options is more than 1'')
          else
            let opt = opt0\<lparr>MagicNumber := MagicNumber DefaultOption\<rparr>;
                opt = (if CodecType opt = [] then opt\<lparr>CodecType := CodecType DefaultOption\<rparr>
                       else opt)
            in Inr opt)"

subsection \<open>codec.go and client.go: calls and the client\<close>

record Header =
  h_ServiceMethod :: string
  h_Seq :: "64 word"
  h_Error :: string

text \<open>
  A \<open>chan *Call\<close> is known by its identity and its capacity: \<open>UserChan i c\<close> is a
  channel the caller made, with capacity \<open>c\<close>; \<open>MadeChan p\<close> is the channel
  \<open>make(chan *Call, 10)\<close> that \<open>Go\<close> makes for the call at address \<open>p\<close>.
\<close>

datatype chan = UserChan nat nat | MadeChan nat

fun cap :: "chan \<Rightarrow> nat" where
  "cap (UserChan i c) = c"
| "cap (MadeChan p) = 10"

text \<open>
  \<open>Args\<close> and \<open>Reply\<close> are \<open>interface{}\<close> values the client only hands to the codec:
  \<open>Args\<close> is kept as the encoded bytes; \<open>Reply\<close> is \<open>None\<close> for a \<open>nil\<close> pointer and
  \<open>Some v\<close> for a pointer to a variable holding \<open>v\<close>.
\<close>

record Call =
  Seq :: "64 word"
  ServiceMethod :: string
  Args :: string
  Reply :: "string option"
  Error :: "error option"
  Done :: chan

text \<open>
  \<open>pending\<close> is a Go map from \<open>Seq\<close> to \<open>*Call\<close>: an association list with distinct
  keys whose order stands for the (unspecified) iteration order of the map.  The codec,
  the \<open>Option\<close> and the two mutexes are not fields of the model: what the codec
  reads and writes is given with each operation, and each operation below runs under
  the locks the code takes.
\<close>

record Client =
  header :: Header
  pending :: "(64 word \<times> nat) list"
  seq :: "64 word"
  closing :: bool
  shutdown :: bool

text \<open>
  The memory the client works in: the \<open>Call\<close> structs by address (\<open>nalloc\<close> is the
  next free address), for each channel the calls sent on it so far, the messages
  \<open>cc.Write\<close> has written, and whether the \<open>receive\<close> goroutine is still in its
  loop.
\<close>

record Runtime =
  client :: Client
  calls :: "nat \<Rightarrow> Call"
  nalloc :: nat
  chans :: "chan \<Rightarrow> nat list"
  wire :: "(Header \<times> string) list"
  receiving :: bool

definition ErrShutdown :: error where
  "ErrShutdown = errors_New ''connection is shut down''"

text \<open>\<open>call.done()\<close>: \<open>call.Done <- call\<close>.\<close>

definition Call_done :: "nat \<Rightarrow> Runtime \<Rightarrow> Runtime" where
  "Call_done p w =
     w\<lparr>chans := (chans w)(Done (calls w p) := chans w (Done (calls w p)) @ [p])\<rparr>"

text \<open>\<open>call.Error = err\<close> for the call at address \<open>p\<close>.\<close>

definition set_Error :: "nat \<Rightarrow> error \<Rightarrow> Runtime \<Rightarrow> Runtime" where
  "set_Error p err w = w\<lparr>calls := (calls w)(p := (calls w p)\<lparr>Error := Some err\<rparr>)\<rparr>"

definition registerCall :: "nat \<Rightarrow> Runtime \<Rightarrow> Runtime \<times> 64 word \<times> error option" where
  "registerCall p w =
     (let c = client w in
      if closing c \<or> shutdown c then (w, 0, Some ErrShutdown)
      else
        let w1 = w\<lparr>calls := (calls w)(p := (calls w p)\<lparr>Seq := seq c\<rparr>)\<rparr>;
            w2 = w1\<lparr>client := c\<lparr>pending := AList.update (seq c) p (pending c)\<rparr>\<rparr>;
            w3 = w2\<lparr>client := (client w2)\<lparr>seq := seq c + 1\<rparr>\<rparr>
        in (w3, seq c, None))"

definition removeCall :: "64 word \<Rightarrow> Runtime \<Rightarrow> Runtime \<times> nat option" where
  "removeCall s w =
     (let c = client w in
      (w\<lparr>client := c\<lparr>pending := AList.delete s (pending c)\<rparr>\<rparr>, map_of (pending c) s))"

definition terminateCalls :: "error \<Rightarrow> Runtime \<Rightarrow> Runtime" where
  "terminateCalls err w =
     foldl (\<lambda>w (s, p). Call_done p (set_Error p err w))
       (w\<lparr>client := (client w)\<lparr>shutdown := True\<rparr>\<rparr>)
       (pending (client w))"

text \<open>\<open>newClientCodec\<close>: the fresh client, its \<open>receive\<close> goroutine started.\<close>

definition newClientCodec :: Runtime where
  "newClientCodec =
     \<lparr>client = \<lparr>header = \<lparr>h_ServiceMethod = [], h_Seq = 0, h_Error = []\<rparr>,
                 pending = [], seq = 1, closing = False, shutdown = False\<rparr>,
      calls = (\<lambda>p. \<lparr>Seq = 0, ServiceMethod = [], Args = [], Reply = None, Error = None,
                     Done = MadeChan p\<rparr>),
      nalloc = 0, chans = (\<lambda>ch. []), wire = [], receiving = True\<rparr>"

text \<open>A client registering the calls at the addresses \<open>ps\<close>, one after the other.\<close>

fun registerCalls :: "nat list \<Rightarrow> Runtime \<Rightarrow> Runtime \<times> (64 word \<times> error option) list" where
  "registerCalls [] w = (w, [])"
| "registerCalls (p # ps) w =
     (case registerCall p w of
        (w1, r) \<Rightarrow> (case registerCalls ps w1 of (w2, rs) \<Rightarrow> (w2, r # rs)))"

subsection \<open>server.go and client.go: the HTTP transport\<close>

definition connected :: string where
  "connected = ''200 Connected to MyRPC''"

definition defaultRPCPath :: string where
  "defaultRPCPath = ''/_myrpc_''"

text \<open>The Go escape \<open>\n\<close> is the byte \<open>0x0A\<close> (line feed); \<open>\r\<close> is \<open>0x0D\<close>.\<close>

definition LF :: char where
  "LF = CHR 0x0A"

definition CR :: char where
  "CR = CHR 0x0D"

text \<open>
  What \<open>Server.ServeHTTP\<close> does with a request: the headers, status and body it gives
  the \<open>http.ResponseWriter\<close>, the bytes it writes to the hijacked connection, and
  whether it goes on to \<open>ServerConn\<close> on that connection.  \<open>hijack\<close> is the error of
  \<open>Hijack()\<close>.
\<close>

record HTTPOutcome =
  respHeader :: "(string \<times> string) list"
  respStatus :: "nat option"
  respBody :: string
  connWritten :: string
  servedConn :: bool

definition StatusMethodNotAllowed :: nat where
  "StatusMethodNotAllowed = 405"

definition ServeHTTP :: "string \<Rightarrow> error option \<Rightarrow> HTTPOutcome" where
  "ServeHTTP reqMethod hijack =
     (if reqMethod \<noteq> ''CONNECT'' then
        \<lparr>respHeader = [(''Content-Type'', ''text/plain; charset=utf-8'')],
         respStatus = Some StatusMethodNotAllowed,
         respBody = ''405 must CONNECT'' @ [LF],
         connWritten = [], servedConn = False\<rparr>
      else
        (case hijack of
           Some err \<Rightarrow>
             \<lparr>respHeader = [], respStatus = None, respBody = [],
              connWritten = [], servedConn = False\<rparr>
         | None \<Rightarrow>
             \<lparr>respHeader = [], respStatus = None, respBody = [],
              connWritten = ''HTTP/1.0 '' @ connected @ [LF, LF], servedConn = True\<rparr>))"

text \<open>
  \<open>NewHTTPClient\<close>: the bytes written to the connection, and the result.  \<open>resp\<close> is
  what \<open>http.ReadResponse\<close> returns (an error, or the response's \<open>Status\<close>);
  \<open>newClient\<close> is the result of \<open>NewClient(conn, opt)\<close>, which negotiates the
  \<open>Option\<close>.
\<close>

definition NewHTTPClient :: "(error + 'c) \<Rightarrow> (error + string) \<Rightarrow> string \<times> (error + 'c)" where
  "NewHTTPClient newClient resp =
     (''CONNECT '' @ defaultRPCPath @ '' HTTP/1.0'' @ [LF, LF],
      (case resp of
         Inr status \<Rightarrow>
           if status = connected then newClient
           else Inl (errors_New (''unexpected HTTP response: '' @ status))
       | Inl err \<Rightarrow> Inl err))"

subsection \<open>registry.go\<close>

text \<open>
  A \<open>time.Time\<close> is an instant, counted in nanoseconds: an \<^typ>\<open>int\<close>.
  \<open>t.Add(d).After(u)\<close> is \<open>u < t + d\<close>.
\<close>

type_synonym Time = int

record ServerItem =
  Addr :: string
  start :: Time

text \<open>
  \<open>servers\<close> is a Go map from address to \<open>*ServerItem\<close>: an association list with
  distinct keys, in the order in which \<open>range\<close> happens to visit the map.
\<close>

record MyRegistry =
  timeout :: Duration
  servers :: "(string \<times> ServerItem) list"

definition defaultPath :: string where
  "defaultPath = ''/_geerpc_/registry''"

definition defaultTimeout :: Duration where
  "defaultTimeout = 5 * Minute"

definition New_MyRegistry :: "Duration \<Rightarrow> MyRegistry" where
  "New_MyRegistry t = \<lparr>timeout = t, servers = []\<rparr>"

text \<open>\<open>putServer\<close>, with \<open>now\<close> the value of \<open>time.Now()\<close>.\<close>

definition putServer :: "Time \<Rightarrow> string \<Rightarrow> MyRegistry \<Rightarrow> MyRegistry" where
  "putServer now addr r =
     (case map_of (servers r) addr of
        None \<Rightarrow> r\<lparr>servers := AList.update addr \<lparr>Addr = addr, start = now\<rparr> (servers r)\<rparr>
      | Some s \<Rightarrow> r\<lparr>servers := AList.update addr (s\<lparr>start := now\<rparr>) (servers r)\<rparr>)"

text \<open>
  \<open>aliveServers\<close>: the loop visits every entry of the map, appends the address of an
  entry that is alive and deletes an entry that is not; then \<open>sort.Strings\<close>.  Go
  compares strings byte by byte, a proper prefix first: the order of \<^typ>\<open>string\<close>
  here.  \<open>now\<close> is the value of \<open>time.Now()\<close>, taken as the same for every entry of
  one call.
\<close>

text \<open>The test of the loop, for an entry of the map.\<close>

definition alive_at :: "Duration \<Rightarrow> Time \<Rightarrow> string \<times> ServerItem \<Rightarrow> bool" where
  "alive_at t now entry = (t = 0 \<or> now < start (snd entry) + t)"

definition aliveServers_visit ::
  "Duration \<Rightarrow> Time \<Rightarrow> string list \<times> (string \<times> ServerItem) list \<Rightarrow> string \<times> ServerItem
     \<Rightarrow> string list \<times> (string \<times> ServerItem) list" where
  "aliveServers_visit t now acc entry =
     (case acc of (alive, m) \<Rightarrow>
        (case entry of (addr, s) \<Rightarrow>
           if t = 0 \<or> now < start s + t then (alive @ [addr], m)
           else (alive, AList.delete addr m)))"

definition aliveServers :: "Time \<Rightarrow> MyRegistry \<Rightarrow> MyRegistry \<times> string list" where
  "aliveServers now r =
     (case foldl (aliveServers_visit (timeout r) now) ([], servers r) (servers r) of
        (alive, m) \<Rightarrow> (r\<lparr>servers := m\<rparr>, sort alive))"

text \<open>\<open>strings.Join\<close>.\<close>

fun Join :: "string list \<Rightarrow> string \<Rightarrow> string" where
  "Join [] sep = []"
| "Join [x] sep = x"
| "Join (x # y # ys) sep = x @ sep @ Join (y # ys) sep"

text \<open>
  \<open>MyRegistry.ServeHTTP\<close>: the request's method and its \<open>X-Myrpc-Server\<close> header
  (empty when absent) come in; the registry, the status (200 unless \<open>WriteHeader\<close> is
  called) and the response headers come out.
\<close>

record RegistryResponse =
  status :: nat
  headers :: "(string \<times> string) list"

definition MyRegistry_ServeHTTP ::
  "Time \<Rightarrow> string \<Rightarrow> string \<Rightarrow> MyRegistry \<Rightarrow> MyRegistry \<times> RegistryResponse" where
  "MyRegistry_ServeHTTP now reqMethod xServer r =
     (if reqMethod = ''GET'' then
        (case aliveServers now r of
           (r', alive) \<Rightarrow>
             (r', \<lparr>status = 200, headers = [(''X-Myrpc-Servers'', Join alive '','')]\<rparr>))
      else if reqMethod = ''POST'' then
        (if xServer = [] then (r, \<lparr>status = 500, headers = []\<rparr>)
         else (putServer now xServer r, \<lparr>status = 200, headers = []\<rparr>))
      else (r, \<lparr>status = StatusMethodNotAllowed, headers = []\<rparr>))"

subsection \<open>hash ring (package xclient)\<close>

text \<open>
  \<open>crc32.ChecksumIEEE\<close> of Go's standard library, bit by bit: the reflected IEEE
  polynomial \<open>0xedb88320\<close>, the register preset to all ones and inverted at the end.
\<close>

definition crc32_shift :: "32 word \<Rightarrow> 32 word" where
  "crc32_shift c = (if bit c 0 then drop_bit 1 c XOR 0xEDB88320 else drop_bit 1 c)"

definition crc32_update :: "32 word \<Rightarrow> char \<Rightarrow> 32 word" where
  "crc32_update c b = (crc32_shift ^^ 8) (c XOR of_nat (of_char b))"

definition ChecksumIEEE :: "string \<Rightarrow> 32 word" where
  "ChecksumIEEE s = NOT (foldl crc32_update (NOT 0) s)"

definition hashKey :: "string \<Rightarrow> 32 word" where
  "hashKey key = ChecksumIEEE key"

text \<open>\<open>strconv.Itoa\<close>: the decimal digits, with a minus sign for a negative number.\<close>

function Itoa_nat :: "nat \<Rightarrow> string" where
  "Itoa_nat n =
     (if n < 10 then [char_of (48 + n)]
      else Itoa_nat (n div 10) @ [char_of (48 + n mod 10)])"
  by pat_completeness auto
termination
  by (relation "measure id") auto

definition Itoa :: "int \<Rightarrow> string" where
  "Itoa i = (if i < 0 then CHR ''-'' # Itoa_nat (nat (- i)) else Itoa_nat (nat i))"

text \<open>
  \<open>nodes\<close> is a Go map from key to address (an association list with distinct keys;
  the code never iterates over it), \<open>sortedNodes\<close> the slice of keys.
\<close>

record HashRing =
  replicateCount :: int
  nodes :: "(32 word \<times> string) list"
  sortedNodes :: "32 word list"

text \<open>The body of the loop of \<open>AddNode\<close>, for the index \<open>i\<close>.\<close>

definition AddNode_step :: "string \<Rightarrow> HashRing \<Rightarrow> int \<Rightarrow> HashRing" where
  "AddNode_step masterNode hr i =
     (let key = hashKey (Itoa i @ masterNode) in
      hr\<lparr>nodes := AList.update key masterNode (nodes hr),
         sortedNodes := sortedNodes hr @ [key]\<rparr>)"

text \<open>
  \<open>AddNode\<close>: the loop runs for \<open>i = 0, ..., replicateCount - 1\<close>; \<open>sort.Slice\<close> with
  \<open><\<close> on \<open>uint32\<close> then leaves the slice in ascending order.
\<close>

definition AddNode :: "string \<Rightarrow> HashRing \<Rightarrow> HashRing" where
  "AddNode masterNode hr =
     (let hr1 = foldl (AddNode_step masterNode) hr [0 .. replicateCount hr - 1]
      in hr1\<lparr>sortedNodes := sort (sortedNodes hr1)\<rparr>)"

definition addNodes :: "string list \<Rightarrow> HashRing \<Rightarrow> HashRing" where
  "addNodes masterNodes hr = foldl (\<lambda>hr node. AddNode node hr) hr masterNodes"

definition New :: "string list \<Rightarrow> int \<Rightarrow> HashRing" where
  "New ns r = addNodes ns \<lparr>replicateCount = r, nodes = [], sortedNodes = []\<rparr>"

text \<open>\<open>getIndexForKey\<close>: the first index that holds the key.\<close>

fun getIndexForKey :: "32 word list \<Rightarrow> 32 word \<Rightarrow> bool \<times> int" where
  "getIndexForKey [] key = (False, - 1)"
| "getIndexForKey (v # vs) key =
     (if v = key then (True, 0)
      else (case getIndexForKey vs key of
              (True, i) \<Rightarrow> (True, i + 1)
            | (False, i) \<Rightarrow> (False, - 1)))"

definition removeNode_step :: "string \<Rightarrow> HashRing \<Rightarrow> int \<Rightarrow> HashRing" where
  "removeNode_step masterNode hr i =
     (let key = hashKey (Itoa i @ masterNode);
          hr1 = hr\<lparr>nodes := AList.delete key (nodes hr)\<rparr>
      in case getIndexForKey (sortedNodes hr1) key of
           (True, index) \<Rightarrow>
             hr1\<lparr>sortedNodes := take (nat index) (sortedNodes hr1)
                                 @ drop (nat (index + 1)) (sortedNodes hr1)\<rparr>
         | (False, index) \<Rightarrow> hr1)"

definition removeNode :: "string \<Rightarrow> HashRing \<Rightarrow> HashRing" where
  "removeNode masterNode hr =
     foldl (removeNode_step masterNode) hr [0 .. replicateCount hr - 1]"

text \<open>
  \<open>hr.nodes[k]\<close> on a Go map is the empty string for a key that is absent.
\<close>

definition nodes_at :: "HashRing \<Rightarrow> 32 word \<Rightarrow> string" where
  "nodes_at hr k = (case map_of (nodes hr) k of None \<Rightarrow> [] | Some b \<Rightarrow> b)"

text \<open>
  The loop of \<open>GetNode\<close>: the first key above the hash ends it; \<open>masterNode\<close> is left
  as it was when there is none.
\<close>

fun GetNode_loop :: "HashRing \<Rightarrow> 32 word \<Rightarrow> string \<Rightarrow> 32 word list \<Rightarrow> string" where
  "GetNode_loop hr h masterNode [] = masterNode"
| "GetNode_loop hr h masterNode (node # ns) =
     (if h < node then nodes_at hr node else GetNode_loop hr h masterNode ns)"

text \<open>
  \<open>GetNode\<close> tests \<open>len(hr.nodes) == 0\<close> and then reads \<open>nodes[0]\<close> of the slice: on a
  ring whose map has an entry while its slice is empty, the read panics.
\<close>

definition GetNode :: "string \<Rightarrow> HashRing \<Rightarrow> panic + string" where
  "GetNode key hr =
     (if length (nodes hr) = 0 then Inr []
      else
        let h = hashKey key in
        (case sortedNodes hr of
           [] \<Rightarrow> Inl index_out_of_range
         | n0 # _ \<Rightarrow> Inr (GetNode_loop hr h (nodes_at hr n0) (sortedNodes hr))))"

text \<open>
  The keys \<open>AddNode\<close> and \<open>removeNode\<close> compute for an address: \<open>hashKey(Itoa(i) +
  masterNode)\<close> for \<open>i = 0, ..., replicateCount - 1\<close>.
\<close>

definition ring_keys :: "int \<Rightarrow> string \<Rightarrow> 32 word list" where
  "ring_keys r masterNode = map (\<lambda>i. hashKey (Itoa i @ masterNode)) [0 .. r - 1]"

text \<open>
  What holds of every ring built by \<open>New\<close>, \<open>AddNode\<close> and \<open>removeNode\<close>: the slice is
  in ascending order, every key of the map is in the slice, and an address is found
  only under keys computed for it.
\<close>

definition ring_inv :: "HashRing \<Rightarrow> bool" where
  "ring_inv hr =
     (sorted (sortedNodes hr) \<and> distinct (map fst (nodes hr))
      \<and> list_all (\<lambda>kv. fst kv \<in> set (sortedNodes hr)
                        \<and> fst kv \<in> set (ring_keys (replicateCount hr) (snd kv))) (nodes hr))"

subsection \<open>client.go: sending, receiving, closing\<close>

text \<open>
  \<open>Client.send\<close>, with \<open>writeErr\<close> the result of \<open>cc.Write\<close>.  When \<open>registerCall\<close>
  fails the code completes the call and goes on (there is no \<open>return\<close>): it writes
  the header with the \<open>Seq\<close> 0 that \<open>registerCall\<close> returned.
\<close>

definition send :: "nat \<Rightarrow> error option \<Rightarrow> Runtime \<Rightarrow> Runtime" where
  "send p writeErr w =
     (case registerCall p w of
        (w1, s, err) \<Rightarrow>
          let w2 = (case err of Some e \<Rightarrow> Call_done p (set_Error p e w1) | None \<Rightarrow> w1);
              h = \<lparr>h_ServiceMethod = ServiceMethod (calls w2 p), h_Seq = s, h_Error = []\<rparr>;
              w3 = w2\<lparr>client := (client w2)\<lparr>header := h\<rparr>\<rparr>
          in (case writeErr of
                None \<Rightarrow> w3\<lparr>wire := wire w3 @ [(h, Args (calls w3 p))]\<rparr>
              | Some e \<Rightarrow>
                  (case removeCall s w3 of
                     (w4, None) \<Rightarrow> w4
                   | (w4, Some q) \<Rightarrow> Call_done q (set_Error q e w4))))"

text \<open>
  \<open>Client.Go\<close>: a \<open>nil\<close> channel is replaced by a new one of capacity 10, a channel
  without buffer is refused with a panic.  The new \<open>Call\<close> is at the next free
  address.
\<close>

definition Go ::
  "string \<Rightarrow> string \<Rightarrow> string option \<Rightarrow> chan option \<Rightarrow> error option \<Rightarrow> Runtime
     \<Rightarrow> panic + Runtime \<times> nat" where
  "Go serviceMethod args reply done_ch writeErr w =
     (let p = nalloc w;
          ch = (case done_ch of None \<Rightarrow> MadeChan p | Some c \<Rightarrow> c)
      in if cap ch = 0 then Inl (log_Panic ''rpc client : done channel is unbuffered'')
         else
           let call = \<lparr>Seq = 0, ServiceMethod = serviceMethod, Args = args, Reply = reply,
                       Error = None, Done = ch\<rparr>;
               w1 = w\<lparr>calls := (calls w)(p := call), nalloc := p + 1\<rparr>
           in Inr (send p writeErr w1, p))"

text \<open>Decoding a body into \<open>call.Reply\<close>; a \<open>nil\<close> pointer stays \<open>nil\<close>.\<close>

definition set_Reply :: "nat \<Rightarrow> string \<Rightarrow> Runtime \<Rightarrow> Runtime" where
  "set_Reply p body w =
     w\<lparr>calls := (calls w)(p := (calls w p)\<lparr>Reply := map_option (\<lambda>_. body) (Reply (calls w p))\<rparr>)\<rparr>"

text \<open>
  One turn of the loop of \<open>Client.receive\<close>, and the call of \<open>terminateCalls\<close> that
  follows the loop when the turn ends it.  \<open>rh\<close> is the result of \<open>ReadHeader\<close>, \<open>rb\<close>
  that of \<open>ReadBody\<close> (the body it decoded, or an error).  Nothing happens once the
  goroutine has left the loop.
\<close>

definition receive_turn :: "error + Header \<Rightarrow> error + string \<Rightarrow> Runtime \<Rightarrow> Runtime" where
  "receive_turn rh rb w =
     (if \<not> receiving w then w
      else
        (case rh of
           Inl err \<Rightarrow> terminateCalls err (w\<lparr>receiving := False\<rparr>)
         | Inr h \<Rightarrow>
             (case removeCall (h_Seq h) w of
                (w1, found) \<Rightarrow>
                  let w2 =
                    (case found of
                       None \<Rightarrow> w1
                     | Some p \<Rightarrow>
                         if h_Error h \<noteq> [] then
                           Call_done p (set_Error p (fmt_Errorf (h_Error h)) w1)
                         else
                           (case rb of
                              Inr body \<Rightarrow> Call_done p (set_Reply p body w1)
                            | Inl e \<Rightarrow>
                                Call_done p
                                  (set_Error p (errors_New (''reading body'' @ err_Error e)) w1)))
                  in (case rb of
                        Inr body \<Rightarrow> w2
                      | Inl e \<Rightarrow> terminateCalls e (w2\<lparr>receiving := False\<rparr>)))))"

text \<open>\<open>Client.Close\<close>, with \<open>closeErr\<close> the result of \<open>cc.Close()\<close>.\<close>

definition Close :: "error option \<Rightarrow> Runtime \<Rightarrow> Runtime \<times> error option" where
  "Close closeErr w =
     (if closing (client w) then (w, Some ErrShutdown)
      else (w\<lparr>client := (client w)\<lparr>closing := True\<rparr>\<rparr>, closeErr))"

text \<open>
  What can happen to a client, one after the other: a caller's \<open>Go\<close> (directly or
  through \<open>Client.Call\<close>), a turn of the \<open>receive\<close> loop, the \<open>removeCall(call.Seq)\<close> of
  a \<open>Client.Call\<close> whose context is done, and \<open>Close\<close>.  \<open>send\<close> holds the mutex
  \<open>sending\<close> from start to end and \<open>terminateCalls\<close> takes it too; a turn of
  \<open>receive\<close> touches, outside the mutex \<open>mu\<close>, only the call it has just removed from
  \<open>pending\<close>: each of them acts as one step.
\<close>

datatype event =
    EvGo string string "string option" "chan option" "error option"
  | EvReceive "error + Header" "error + string"
  | EvCancel nat
  | EvClose "error option"

fun step :: "event \<Rightarrow> Runtime \<Rightarrow> Runtime" where
  "step (EvGo serviceMethod args reply done_ch writeErr) w =
     (case Go serviceMethod args reply done_ch writeErr w of
        Inl pn \<Rightarrow> w
      | Inr (w', p) \<Rightarrow> w')"
| "step (EvReceive rh rb) w = receive_turn rh rb w"
| "step (EvCancel p) w = fst (removeCall (Seq (calls w p)) w)"
| "step (EvClose closeErr) w = fst (Close closeErr w)"

definition run :: "event list \<Rightarrow> Runtime" where
  "run evs = foldl (\<lambda>w e. step e w) newClientCodec evs"

text \<open>How often the call at address \<open>p\<close> has been sent on its channel \<open>Done\<close>.\<close>

definition notified :: "Runtime \<Rightarrow> nat \<Rightarrow> nat" where
  "notified w p = count_list (chans w (Done (calls w p))) p"

text \<open>
  The calls an event completes: \<open>Go\<close> completes the call it creates when the client is
  closed or shut down (registration fails) or the write fails; a turn of \<open>receive\<close>
  completes the pending call whose \<open>Seq\<close> the header carries (with the header's error,
  with a decoding error, or with the reply) and, when reading fails, every call that
  is pending.
\<close>

fun completes :: "event \<Rightarrow> Runtime \<Rightarrow> nat \<Rightarrow> bool" where
  "completes (EvGo serviceMethod args reply done_ch writeErr) w p =
     (p = nalloc w
      \<and> 0 < cap (case done_ch of None \<Rightarrow> MadeChan p | Some c \<Rightarrow> c)
      \<and> (closing (client w) \<or> shutdown (client w) \<or> writeErr \<noteq> None))"
| "completes (EvReceive rh rb) w p =
     (receiving w
      \<and> (case rh of
            Inl err \<Rightarrow> p \<in> snd ` set (pending (client w))
          | Inr h \<Rightarrow>
              map_of (pending (client w)) (h_Seq h) = Some p
              \<or> (isl rb \<and> p \<in> snd ` set (pending (client w)))))"
| "completes (EvCancel q) w p = False"
| "completes (EvClose closeErr) w p = False"

subsection \<open>Example values\<close>

text \<open>The demo service of \<open>main.go\<close>: type \<open>Foo\<close> with the method \<open>Sum\<close>.\<close>

definition Foo_server :: Server where
  "Foo_server =
     \<lparr>serviceMap =
        [''Foo'' \<mapsto>
           \<lparr>name = ''Foo'',
            methodMap = [''Sum'' \<mapsto> \<lparr>ArgType = ''Args'', ReplyType = ''*int'', numCalls = 0\<rparr>]\<rparr>]\<rparr>"

text \<open>
  Scenario S5: a registry with a timeout of one second that has heard from
  \<open>tcp@b:2\<close> and \<open>tcp@a:1\<close> at time 0 and from \<open>tcp@c:3\<close> one second later.
\<close>

definition S5_registry :: MyRegistry where
  "S5_registry =
     putServer Second ''tcp@c:3''
       (putServer 0 ''tcp@a:1'' (putServer 0 ''tcp@b:2'' (New_MyRegistry Second)))"

text \<open>A ring of two addresses with two keys each, and a ring of one.\<close>

definition ring_ab :: HashRing where
  "ring_ab = New [''a'', ''b''] 2"

definition ring_a :: HashRing where
  "ring_a = New [''a''] 2"

section \<open>Properties\<close>

subsection \<open>findService\<close>

lemma LastIndex_none: "LastIndex s c < 0 \<longleftrightarrow> c \<notin> set s"
  by (induction s) (auto simp: Let_def)

lemma LastIndex_bound: "LastIndex s c < int (length s)"
  by (induction s) (auto simp: Let_def)

lemma LastIndex_append_sep:
  "c \<notin> set m \<Longrightarrow> LastIndex (s @ c # m) c = int (length s)"
proof (induction s)
  case Nil
  then have "LastIndex m c < 0" by (simp add: LastIndex_none)
  then show ?case by (simp add: Let_def)
next
  case (Cons x s)
  then show ?case by (simp add: Let_def)
qed

lemma findService_split:
  assumes "CHR ''.'' \<notin> set m"
  shows "findService server (s @ CHR ''.'' # m) =
           (case serviceMap server s of
              None \<Rightarrow> (None, None, Some (errors_New (''rpc server: can't find service '' @ s)))
            | Some svc \<Rightarrow>
                (case methodMap svc m of
                   None \<Rightarrow>
                     (Some svc, None, Some (errors_New (''rpc server: can't find method '' @ m)))
                 | Some mtype \<Rightarrow> (Some svc, Some mtype, None)))"
proof -
  have "nat (int (length s) + 1) = Suc (length s)" by simp
  with LastIndex_append_sep [OF assms, of s] show ?thesis
    by (simp add: findService_def Let_def del: of_nat_Suc)
qed

text \<open>
  C10.  \<open>findService\<close> answers with the ``request ill-formed'' error exactly for the
  strings that contain no dot.  A string ending in a dot, such as \<open>Foo.\<close>, is split
  into the service before the dot and the empty method name: where that service is
  registered (and, as for every Go type, has no method with the empty name) the result
  is the ``can't find method'' error.  A string starting with its only dot, such as
  \<open>.Sum\<close>, is split into the empty service name and fails with ``can't find service''
  (no service is registered under the empty name).
\<close>

theorem findService_ill_formed_iff_no_dot:
  assumes "serviceMap server s = Some svc" and "methodMap svc [] = None"
    and "serviceMap server [] = None" and "CHR ''.'' \<notin> set m"
  shows "(snd (snd (findService server sm)) =
            Some (errors_New (''rpc server: server/method request ill-formed: '' @ sm)))
           = (CHR ''.'' \<notin> set sm)
       \<and> findService server (s @ ''.'') =
           (Some svc, None, Some (errors_New ''rpc server: can't find method ''))
       \<and> findService server (''.'' @ m) =
           (None, None, Some (errors_New ''rpc server: can't find service ''))"
proof (intro conjI)
  show "(snd (snd (findService server sm)) =
            Some (errors_New (''rpc server: server/method request ill-formed: '' @ sm)))
           = (CHR ''.'' \<notin> set sm)"
  proof (cases "CHR ''.'' \<in> set sm")
    case True
    then have "\<not> LastIndex sm (CHR ''.'') < 0" by (simp add: LastIndex_none)
    then show ?thesis using True
      by (simp add: findService_def Let_def split: option.splits)
  next
    case False
    then have "LastIndex sm (CHR ''.'') < 0" by (simp add: LastIndex_none)
    then show ?thesis using False by (simp add: findService_def Let_def)
  qed
next
  show "findService server (s @ ''.'') =
          (Some svc, None, Some (errors_New ''rpc server: can't find method ''))"
    using findService_split [of "[]" server s] assms(1,2) by simp
next
  show "findService server (''.'' @ m) =
          (None, None, Some (errors_New ''rpc server: can't find service ''))"
    using findService_split [OF assms(4), of server "[]"] assms(3) by simp
qed

theorem findService_ill_formed_iff_no_dot_witness:
  "findService Foo_server ''Foo.'' =
     (serviceMap Foo_server ''Foo'', None, Some (errors_New ''rpc server: can't find method ''))
   \<and> findService Foo_server ''.Sum'' =
     (None, None, Some (errors_New ''rpc server: can't find service ''))
   \<and> snd (snd (findService Foo_server ''FooSum'')) =
     Some (errors_New ''rpc server: server/method request ill-formed: FooSum'')
   \<and> snd (snd (findService Foo_server ''Foo.Sum'')) = None"
proof -
  let ?svc = "\<lparr>name = ''Foo'',
      methodMap = [''Sum'' \<mapsto> \<lparr>ArgType = ''Args'', ReplyType = ''*int'', numCalls = 0\<rparr>]\<rparr>"
  have a: "serviceMap Foo_server ''Foo'' = Some ?svc" by (simp add: Foo_server_def)
  have b: "methodMap ?svc [] = None" by simp
  have c: "serviceMap Foo_server [] = None" by (simp add: Foo_server_def)
  have d: "CHR ''.'' \<notin> set ''Sum''" by simp
  note t = findService_ill_formed_iff_no_dot [OF a b c d]
  have "snd (snd (findService Foo_server ''Foo.Sum'')) = None"
    by (simp add: findService_def Foo_server_def Let_def)
  then show ?thesis using t [of "''FooSum''"] a by simp
qed

subsection \<open>parseOptions\<close>

lemma parseOptions_default:
  "parseOptions [] = Inr DefaultOption" "parseOptions [None] = Inr DefaultOption"
  by (simp_all add: parseOptions_def)

lemma parseOptions_single:
  "parseOptions [Some opt] =
     Inr (opt\<lparr>MagicNumber := const_MagicNumber,
              CodecType := (if CodecType opt = [] then GobType else CodecType opt)\<rparr>)"
  by (simp add: parseOptions_def DefaultOption_def Let_def)

lemma parseOptions_magic:
  "parseOptions opts = Inr opt \<Longrightarrow> MagicNumber opt = const_MagicNumber"
  by (auto simp: parseOptions_def DefaultOption_def Let_def
      split: list.splits option.splits if_splits)

lemma parseOptions_many_non_nil:
  "parseOptions (Some opt # x # xs) = Inl (errors_New ''number of options is more than 1'')"
  by (simp add: parseOptions_def)

text \<open>
  C7.  The claim says that more than one option yields an error.  The code tests
  \<open>opts[0] == nil\<close> before it tests the number of options: called with two options of
  which the first is \<open>nil\<close>, \<open>parseOptions\<close> returns the default \<open>Option\<close> and no
  error.
\<close>

theorem parseOptions_nil_first_no_error:
  "parseOptions [None, Some opt] = Inr DefaultOption"
  by (simp add: parseOptions_def)

subsection \<open>registerCall\<close>

lemma registerCall_shut:
  "closing (client w) \<or> shutdown (client w) \<Longrightarrow> registerCall p w = (w, 0, Some ErrShutdown)"
  by (simp add: registerCall_def Let_def)

lemma registerCall_ok:
  assumes "\<not> closing (client w)" and "\<not> shutdown (client w)"
  shows "registerCall p w =
           (w\<lparr>calls := (calls w)(p := (calls w p)\<lparr>Seq := seq (client w)\<rparr>),
              client := (client w)\<lparr>pending := AList.update (seq (client w)) p (pending (client w)),
                                  seq := seq (client w) + 1\<rparr>\<rparr>,
            seq (client w), None)"
  using assms by (simp add: registerCall_def Let_def)

lemma word64_less_succ: "(s :: 64 word) \<noteq> - 1 \<Longrightarrow> s < s + 1"
  by (metis inc_less_eq_triv_imp linorder_less_linear word_le_less_eq)

lemma unat64_succ:
  assumes "unat (s :: 64 word) + 1 < 2 ^ 64"
  shows "unat (s + 1) = unat s + 1"
proof -
  have "unat (s + 1) = (unat s + 1) mod 2 ^ 64"
    by (simp add: unat_word_ariths)
  with assms show ?thesis by simp
qed

lemma registerCalls_consecutive:
  assumes "\<not> closing (client w)" and "\<not> shutdown (client w)"
    and "unat (seq (client w)) + length ps < 2 ^ 64"
  shows "map (\<lambda>r. unat (fst r)) (snd (registerCalls ps w)) =
           [unat (seq (client w)) ..< unat (seq (client w)) + length ps]
         \<and> list_all (\<lambda>r. snd r = None) (snd (registerCalls ps w))"
  using assms
proof (induction ps arbitrary: w)
  case Nil
  then show ?case by simp
next
  case (Cons p ps)
  let ?s = "seq (client w)"
  obtain w1 where w1: "registerCall p w = (w1, ?s, None)"
    and c1: "\<not> closing (client w1)" "\<not> shutdown (client w1)" "seq (client w1) = ?s + 1"
    using Cons.prems(1,2) by (simp add: registerCall_ok)
  have "unat ?s + 1 < 2 ^ 64" using Cons.prems(3) by simp
  then have u: "unat (seq (client w1)) = unat ?s + 1"
    using c1(3) by (simp add: unat64_succ)
  then have "unat (seq (client w1)) + length ps < 2 ^ 64"
    using Cons.prems(3) by simp
  from Cons.IH [OF c1(1,2) this] u
  have ih: "map (\<lambda>r. unat (fst r)) (snd (registerCalls ps w1)) =
              [Suc (unat ?s) ..< unat ?s + length (p # ps)]"
    and ok: "list_all (\<lambda>r. snd r = None) (snd (registerCalls ps w1))"
    by (simp_all del: upt_Suc)
  have rc: "snd (registerCalls (p # ps) w) = (?s, None) # snd (registerCalls ps w1)"
    by (simp add: w1 split: prod.splits)
  have e: "[unat ?s ..< unat ?s + length (p # ps)] =
             unat ?s # [Suc (unat ?s) ..< unat ?s + length (p # ps)]"
    by (rule upt_conv_Cons) simp
  show ?case unfolding rc e using ih ok by (simp del: upt_Suc)
qed

text \<open>
  C8 (as amended).  On a client whose \<open>closing\<close> or \<open>shutdown\<close> flag is set,
  \<open>registerCall\<close> returns \<open>(0, ErrShutdown)\<close> and changes nothing.  Otherwise it
  returns the current \<open>seq\<close> with no error, stores it in the call's \<open>Seq\<close>, maps that
  \<open>Seq\<close> to the call in \<open>pending\<close> and adds one to \<open>seq\<close> in \<open>uint64\<close> arithmetic.
  As long as the counter stays below \<open>2^64\<close>, the numbers assigned to calls registered
  one after the other are consecutive, hence strictly increasing and never reused.
\<close>

theorem registerCall_assigns_seq:
  "(closing (client w) \<or> shutdown (client w) \<longrightarrow>
      registerCall p w = (w, 0, Some ErrShutdown))
   \<and> (\<not> closing (client w) \<and> \<not> shutdown (client w) \<longrightarrow>
        (case registerCall p w of
           (w', s, err) \<Rightarrow>
             err = None \<and> s = seq (client w) \<and> Seq (calls w' p) = seq (client w)
             \<and> map_of (pending (client w')) = (map_of (pending (client w)))(seq (client w) \<mapsto> p)
             \<and> seq (client w') = seq (client w) + 1)
        \<and> (unat (seq (client w)) + length ps < 2 ^ 64 \<longrightarrow>
             map (\<lambda>r. unat (fst r)) (snd (registerCalls ps w)) =
               [unat (seq (client w)) ..< unat (seq (client w)) + length ps]
             \<and> sorted_wrt (<) (map fst (snd (registerCalls ps w)))
             \<and> distinct (map fst (snd (registerCalls ps w)))))"
proof (intro conjI impI)
  assume "closing (client w) \<or> shutdown (client w)"
  then show "registerCall p w = (w, 0, Some ErrShutdown)" by (rule registerCall_shut)
next
  assume "\<not> closing (client w) \<and> \<not> shutdown (client w)"
  then show "case registerCall p w of
           (w', s, err) \<Rightarrow>
             err = None \<and> s = seq (client w) \<and> Seq (calls w' p) = seq (client w)
             \<and> map_of (pending (client w')) = (map_of (pending (client w)))(seq (client w) \<mapsto> p)
             \<and> seq (client w') = seq (client w) + 1"
    by (simp add: registerCall_ok update_conv')
next
  assume ok: "\<not> closing (client w) \<and> \<not> shutdown (client w)"
    and b: "unat (seq (client w)) + length ps < 2 ^ 64"
  let ?rs = "snd (registerCalls ps w)"
  show u: "map (\<lambda>r. unat (fst r)) ?rs =
             [unat (seq (client w)) ..< unat (seq (client w)) + length ps]"
    using registerCalls_consecutive [of w ps] ok b by simp
  have m: "map unat (map fst ?rs) = map (\<lambda>r. unat (fst r)) ?rs" by (simp add: comp_def)
  have "sorted_wrt (<) (map unat (map fst ?rs))"
    unfolding m u by (rule sorted_wrt_upt)
  then show st: "sorted_wrt (<) (map fst ?rs)"
    by (simp add: sorted_wrt_map word_less_nat_alt)
  then show "distinct (map fst ?rs)"
    by (simp add: strict_sorted_iff)
qed

text \<open>
  The claim as stated fails where the \<open>uint64\<close> counter wraps: a client whose \<open>seq\<close> is
  \<open>2^64 - 1\<close> assigns \<open>2^64 - 1\<close> and then \<open>0\<close>.
\<close>

theorem registerCall_wraps_counterexample:
  "\<not> sorted_wrt (<)
       (map fst (snd (registerCalls [0, 1]
          (newClientCodec\<lparr>client := (client newClientCodec)\<lparr>seq := - 1\<rparr>\<rparr>))))"
  by (simp add: registerCall_def newClientCodec_def Let_def)

theorem registerCall_assigns_seq_witness:
  "registerCall 0 (newClientCodec\<lparr>client := (client newClientCodec)\<lparr>closing := True\<rparr>\<rparr>) =
     (newClientCodec\<lparr>client := (client newClientCodec)\<lparr>closing := True\<rparr>\<rparr>, 0, Some ErrShutdown)
   \<and> fst (snd (registerCall 0 newClientCodec)) = 1
   \<and> seq (client (fst (registerCall 0 newClientCodec))) = 2
   \<and> map (\<lambda>r. unat (fst r)) (snd (registerCalls [0, 1, 2] newClientCodec)) = [1, 2, 3]"
proof -
  have a: "\<not> closing (client newClientCodec) \<and> \<not> shutdown (client newClientCodec)"
    and b: "unat (seq (client newClientCodec)) + length [0::nat, 1, 2] < 2 ^ 64"
    and c: "unat (seq (client newClientCodec)) = 1"
    by (simp_all add: newClientCodec_def)
  have d: "closing (client (newClientCodec\<lparr>client := (client newClientCodec)\<lparr>closing := True\<rparr>\<rparr>))"
    by simp
  have e: "[Suc 0..<4] = [1, 2, 3]" by (simp add: upt_conv_Cons)
  from registerCall_assigns_seq
         [of "newClientCodec\<lparr>client := (client newClientCodec)\<lparr>closing := True\<rparr>\<rparr>" 0 "[]"] d
  have 1: "registerCall 0 (newClientCodec\<lparr>client := (client newClientCodec)\<lparr>closing := True\<rparr>\<rparr>) =
     (newClientCodec\<lparr>client := (client newClientCodec)\<lparr>closing := True\<rparr>\<rparr>, 0, Some ErrShutdown)"
    by blast
  from registerCall_assigns_seq [of newClientCodec 0 "[0, 1, 2]"] a b c e
  have 2: "fst (snd (registerCall 0 newClientCodec)) = 1
     \<and> seq (client (fst (registerCall 0 newClientCodec))) = 2
     \<and> map (\<lambda>r. unat (fst r)) (snd (registerCalls [0, 1, 2] newClientCodec)) = [1, 2, 3]"
    by (auto simp: newClientCodec_def split: prod.splits)
  from 1 2 show ?thesis by blast
qed

subsection \<open>The HTTP handshake\<close>

text \<open>
  C6 (as amended).  The client sends exactly \<open>CONNECT /_myrpc_ HTTP/1.0\<close> followed by
  two line feeds, and goes on to negotiate the \<open>Option\<close> exactly when the status it
  reads is \<open>200 Connected to MyRPC\<close>.  To a \<open>CONNECT\<close> request whose connection it
  can hijack the server writes exactly \<open>HTTP/1.0 200 Connected to MyRPC\<close> followed by
  two line feeds and then serves the raw connection; to every other method it answers
  405 with the plain-text body \<open>405 must CONNECT\<close> and one line feed.
\<close>

theorem HTTP_handshake_bytes:
  "fst (NewHTTPClient newClient resp) = ''CONNECT /_myrpc_ HTTP/1.0'' @ [CHR 0x0A, CHR 0x0A]
   \<and> snd (NewHTTPClient newClient (Inr ''200 Connected to MyRPC'')) = newClient
   \<and> ServeHTTP ''CONNECT'' None =
       \<lparr>respHeader = [], respStatus = None, respBody = [],
        connWritten = ''HTTP/1.0 200 Connected to MyRPC'' @ [CHR 0x0A, CHR 0x0A],
        servedConn = True\<rparr>
   \<and> ServeHTTP reqMethod hijack =
       (if reqMethod = ''CONNECT'' then ServeHTTP ''CONNECT'' hijack
        else \<lparr>respHeader = [(''Content-Type'', ''text/plain; charset=utf-8'')],
              respStatus = Some 405, respBody = ''405 must CONNECT'' @ [CHR 0x0A],
              connWritten = [], servedConn = False\<rparr>)"
  by (simp add: NewHTTPClient_def ServeHTTP_def defaultRPCPath_def connected_def LF_def
      StatusMethodNotAllowed_def)

text \<open>
  The claim as stated has each line end in carriage return and line feed; the code
  writes line feeds only.
\<close>

theorem HTTP_handshake_crlf_counterexample:
  "fst (NewHTTPClient (Inr ()) (Inr connected)) \<noteq>
     ''CONNECT '' @ defaultRPCPath @ '' HTTP/1.0'' @ [CR, LF, CR, LF]
   \<and> connWritten (ServeHTTP ''CONNECT'' None) \<noteq>
     ''HTTP/1.0 200 Connected to MyRPC'' @ [CR, LF, CR, LF]"
  by (simp add: NewHTTPClient_def ServeHTTP_def defaultRPCPath_def connected_def LF_def CR_def)

subsection \<open>The registry\<close>

lemma aliveServers_loop:
  assumes "distinct (map fst (pre @ xs))"
  shows "foldl (aliveServers_visit t now) (alive, pre @ xs) xs =
           (alive @ map fst (filter (alive_at t now) xs), pre @ filter (alive_at t now) xs)"
  using assms
proof (induction xs arbitrary: alive pre)
  case Nil
  then show ?case by simp
next
  case (Cons x xs)
  obtain addr s where x: "x = (addr, s)" by (cases x)
  show ?case
  proof (cases "alive_at t now x")
    case True
    have "distinct (map fst ((pre @ [x]) @ xs))" using Cons.prems by simp
    from Cons.IH [OF this, of "alive @ [addr]"] True x show ?thesis
      by (simp add: aliveServers_visit_def alive_at_def)
  next
    case False
    have "AList.delete addr pre = pre" "AList.delete addr xs = xs"
      using Cons.prems x by (auto intro: AList.delete_id)
    then have d: "AList.delete addr (pre @ x # xs) = pre @ xs"
      using x by (simp add: AList.delete_eq)
    have "distinct (map fst (pre @ xs))" using Cons.prems by simp
    from Cons.IH [OF this, of alive] False x d show ?thesis
      by (simp add: aliveServers_visit_def alive_at_def)
  qed
qed

lemma aliveServers_filter:
  assumes "distinct (map fst (servers r))"
  shows "aliveServers now r =
           (r\<lparr>servers := filter (alive_at (timeout r) now) (servers r)\<rparr>,
            sort (map fst (filter (alive_at (timeout r) now) (servers r))))"
  using aliveServers_loop [of "[]" "servers r" "timeout r" now "[]"] assms
  by (simp add: aliveServers_def)

lemma map_of_filter_restrict:
  assumes "distinct (map fst xs)"
  shows "map_of (filter P xs) = map_of xs |` {k. \<exists>v. map_of xs k = Some v \<and> P (k, v)}"
  using assms
proof (induction xs)
  case Nil
  then show ?case by simp
next
  case (Cons x xs)
  obtain k v where x: "x = (k, v)" by (cases x)
  have k: "map_of xs k = None" using Cons.prems x by (simp add: map_of_eq_None_iff)
  have ih: "map_of (filter P xs) = map_of xs |` {k. \<exists>v. map_of xs k = Some v \<and> P (k, v)}"
    using Cons by simp
  show ?case
  proof (rule ext)
    fix a
    show "map_of (filter P (x # xs)) a =
            (map_of (x # xs) |` {k. \<exists>v. map_of (x # xs) k = Some v \<and> P (k, v)}) a"
      using k x by (cases "a = k") (auto simp: ih restrict_map_def)
  qed
qed

lemma alive_addresses:
  assumes "distinct (map fst xs)"
  shows "set (map fst (filter (alive_at t now) xs)) =
           {addr. \<exists>s. map_of xs addr = Some s \<and> (t = 0 \<or> now < start s + t)}"
  using assms by (auto simp: alive_at_def image_iff) force+

text \<open>
  C4.  On a GET at time \<open>now\<close>, a registry with timeout \<open>T\<close> answers with the header
  \<open>X-Myrpc-Servers\<close> holding, joined by commas and in ascending order, exactly the
  addresses whose last heartbeat \<open>t\<close> satisfies \<open>now < t + T\<close> (all addresses when \<open>T\<close>
  is zero); the table it keeps afterwards is the old one restricted to these
  addresses.
\<close>

theorem registry_GET_alive_sorted:
  assumes "distinct (map fst (servers r))"
    and "alive = {addr. \<exists>s. map_of (servers r) addr = Some s
                        \<and> (timeout r = 0 \<or> now < start s + timeout r)}"
  shows "headers (snd (MyRegistry_ServeHTTP now ''GET'' x r)) =
           [(''X-Myrpc-Servers'', Join (sorted_list_of_set alive) '','')]
       \<and> map_of (servers (fst (MyRegistry_ServeHTTP now ''GET'' x r))) =
           map_of (servers r) |` alive
       \<and> timeout (fst (MyRegistry_ServeHTTP now ''GET'' x r)) = timeout r
       \<and> status (snd (MyRegistry_ServeHTTP now ''GET'' x r)) = 200"
proof -
  let ?live = "filter (alive_at (timeout r) now) (servers r)"
  have d: "distinct (map fst ?live)"
    using assms(1) by (simp add: distinct_map_filter)
  have s: "set (map fst ?live) = alive"
    unfolding assms(2) by (rule alive_addresses [OF assms(1)])
  have "sorted_list_of_set (set (map fst ?live)) = sort (remdups (map fst ?live))"
    by (rule sorted_list_of_set_sort_remdups)
  also have "remdups (map fst ?live) = map fst ?live"
    using d by (rule distinct_remdups_id)
  finally have h: "sort (map fst ?live) = sorted_list_of_set alive"
    by (simp only: s)
  have "{k. \<exists>v. map_of (servers r) k = Some v \<and> alive_at (timeout r) now (k, v)} = alive"
    unfolding assms(2) by (simp add: alive_at_def)
  then have m: "map_of ?live = map_of (servers r) |` alive"
    using map_of_filter_restrict [OF assms(1), of "alive_at (timeout r) now"] by simp
  show ?thesis
    by (simp add: MyRegistry_ServeHTTP_def aliveServers_filter [OF assms(1)] h m)
qed

theorem registry_GET_alive_sorted_witness:
  "headers (snd (MyRegistry_ServeHTTP (Second div 2) ''GET'' [] S5_registry)) =
     [(''X-Myrpc-Servers'', ''tcp@a:1,tcp@b:2,tcp@c:3'')]
   \<and> headers (snd (MyRegistry_ServeHTTP (Second + Second div 2) ''GET'' [] S5_registry)) =
     [(''X-Myrpc-Servers'', ''tcp@c:3'')]
   \<and> map fst (servers (fst (MyRegistry_ServeHTTP (Second + Second div 2) ''GET'' [] S5_registry)))
       = [''tcp@c:3'']
   \<and> Join (sorted_list_of_set
        {addr. \<exists>s. map_of (servers S5_registry) addr = Some s
               \<and> (timeout S5_registry = 0 \<or> Second + Second div 2 < start s + timeout S5_registry)})
         '','' = ''tcp@c:3''"
proof -
  have v: "servers S5_registry =
      [(''tcp@b:2'', \<lparr>Addr = ''tcp@b:2'', start = 0\<rparr>),
       (''tcp@a:1'', \<lparr>Addr = ''tcp@a:1'', start = 0\<rparr>),
       (''tcp@c:3'', \<lparr>Addr = ''tcp@c:3'', start = Second\<rparr>)]"
    and t: "timeout S5_registry = Second"
    by (simp_all add: S5_registry_def putServer_def New_MyRegistry_def)
  have d: "distinct (map fst (servers S5_registry))" by (simp add: v)
  have a1: "aliveServers (Second div 2) S5_registry =
              (S5_registry, [''tcp@a:1'', ''tcp@b:2'', ''tcp@c:3''])"
    by (simp add: aliveServers_def aliveServers_visit_def v t Second_def)
  have a2: "aliveServers (Second + Second div 2) S5_registry =
              (S5_registry\<lparr>servers := [(''tcp@c:3'', \<lparr>Addr = ''tcp@c:3'', start = Second\<rparr>)]\<rparr>,
               [''tcp@c:3''])"
    by (simp add: aliveServers_def aliveServers_visit_def v t Second_def)
  have j: "Join (sorted_list_of_set
        {addr. \<exists>s. map_of (servers S5_registry) addr = Some s
               \<and> (timeout S5_registry = 0 \<or> Second + Second div 2 < start s + timeout S5_registry)})
         '','' = ''tcp@c:3''"
    using registry_GET_alive_sorted [OF d refl, of "Second + Second div 2" "[]"]
    by (simp add: MyRegistry_ServeHTTP_def a2)
  from a1 a2 j show ?thesis
    by (simp add: MyRegistry_ServeHTTP_def)
qed

subsection \<open>The hash ring\<close>

lemma hashKey_0a: "hashKey ''0a'' = 2754246082"
  unfolding hashKey_def by code_simp

lemma hashKey_1a: "hashKey ''1a'' = 3174122627"
  unfolding hashKey_def by code_simp

lemma AddNode_loop:
  "foldl (AddNode_step b) hr is =
     hr\<lparr>nodes := foldl (\<lambda>al i. AList.update (hashKey (Itoa i @ b)) b al) (nodes hr) is,
        sortedNodes := sortedNodes hr @ map (\<lambda>i. hashKey (Itoa i @ b)) is\<rparr>"
  by (induction "is" arbitrary: hr) (simp_all add: AddNode_step_def Let_def)

lemma map_of_updates_const:
  "map_of (foldl (\<lambda>al i. AList.update (f i) b al) al is) k =
     (if k \<in> f ` set is then Some b else map_of al k)"
  by (induction "is" arbitrary: al) (auto simp: update_conv')

lemma distinct_updates_const:
  "distinct (map fst al) \<Longrightarrow>
   distinct (map fst (foldl (\<lambda>al i. AList.update (f i) b al) al is))"
  by (induction "is" arbitrary: al) (simp_all add: distinct_update)

lemma AddNode_eq:
  "AddNode b hr =
     hr\<lparr>nodes := foldl (\<lambda>al i. AList.update (hashKey (Itoa i @ b)) b al) (nodes hr)
                  [0 .. replicateCount hr - 1],
        sortedNodes := sort (sortedNodes hr @ ring_keys (replicateCount hr) b)\<rparr>"
  by (simp add: AddNode_def AddNode_loop ring_keys_def Let_def)

lemma AddNode_nodes:
  "map_of (nodes (AddNode b hr)) k =
     (if k \<in> set (ring_keys (replicateCount hr) b) then Some b else map_of (nodes hr) k)"
  by (simp add: AddNode_eq map_of_updates_const ring_keys_def)

lemma getIndexForKey_remove1:
  "(case getIndexForKey xs k of
      (True, i) \<Rightarrow> k \<in> set xs \<and> take (nat i) xs @ drop (nat (i + 1)) xs = remove1 k xs \<and> 0 \<le> i
    | (False, i) \<Rightarrow> k \<notin> set xs \<and> i = - 1)"
proof (induction xs)
  case Nil
  then show ?case by simp
next
  case (Cons v vs)
  show ?case
  proof (cases "v = k")
    case True
    then show ?thesis by simp
  next
    case False
    obtain ok i where g: "getIndexForKey vs k = (ok, i)" by (cases "getIndexForKey vs k")
    show ?thesis
    proof (cases ok)
      case True
      with Cons g have "k \<in> set vs" "take (nat i) vs @ drop (nat (i + 1)) vs = remove1 k vs"
        "0 \<le> i" by simp_all
      moreover have "nat (i + 1) = Suc (nat i)" "nat (i + 1 + 1) = Suc (Suc (nat i))"
        using \<open>0 \<le> i\<close> by simp_all
      ultimately show ?thesis using False g True by simp
    next
      case f: False
      with Cons g show ?thesis using False by simp
    qed
  qed
qed

lemma removeNode_step_eq:
  "removeNode_step b hr i =
     hr\<lparr>nodes := AList.delete (hashKey (Itoa i @ b)) (nodes hr),
        sortedNodes := remove1 (hashKey (Itoa i @ b)) (sortedNodes hr)\<rparr>"
proof -
  let ?k = "hashKey (Itoa i @ b)"
  obtain ok j where g: "getIndexForKey (sortedNodes hr) ?k = (ok, j)"
    by (cases "getIndexForKey (sortedNodes hr) ?k")
  show ?thesis
    using getIndexForKey_remove1 [where xs = "sortedNodes hr" and k = ?k] g
    by (cases ok) (simp_all add: removeNode_step_def Let_def remove1_idem)
qed

lemma removeNode_loop:
  "foldl (removeNode_step b) hr is =
     hr\<lparr>nodes := foldl (\<lambda>al i. AList.delete (hashKey (Itoa i @ b)) al) (nodes hr) is,
        sortedNodes := foldl (\<lambda>xs i. remove1 (hashKey (Itoa i @ b)) xs) (sortedNodes hr) is\<rparr>"
  by (induction "is" arbitrary: hr) (simp_all add: removeNode_step_eq)

lemma removeNode_eq:
  "removeNode b hr =
     hr\<lparr>nodes := foldl (\<lambda>al i. AList.delete (hashKey (Itoa i @ b)) al) (nodes hr)
                  [0 .. replicateCount hr - 1],
        sortedNodes := foldl (\<lambda>xs i. remove1 (hashKey (Itoa i @ b)) xs) (sortedNodes hr)
                  [0 .. replicateCount hr - 1]\<rparr>"
  by (simp add: removeNode_def removeNode_loop)

lemma sorted_remove1s:
  "sorted xs \<Longrightarrow> sorted (foldl (\<lambda>xs i. remove1 (f i) xs) xs is)"
  by (induction "is" arbitrary: xs) (simp_all add: sorted_remove1)

lemma set_remove1s_subset:
  "set (foldl (\<lambda>xs i. remove1 (f i) xs) xs is) \<subseteq> set xs"
proof (induction "is" arbitrary: xs)
  case Nil
  then show ?case by simp
next
  case (Cons i "is")
  have "set (foldl (\<lambda>xs i. remove1 (f i) xs) (remove1 (f i) xs) is) \<subseteq> set (remove1 (f i) xs)"
    by (rule Cons.IH)
  also have "\<dots> \<subseteq> set xs" by (rule set_remove1_subset)
  finally show ?case by simp
qed

lemma mset_remove1s:
  "mset (foldl (\<lambda>xs i. remove1 (f i) xs) xs is) = mset xs - mset (map f is)"
proof (induction "is" arbitrary: xs)
  case Nil
  then show ?case by simp
next
  case (Cons i "is")
  have "mset xs - {#f i#} - mset (map f is) = mset xs - mset (map f (i # is))"
    by (metis add_mset_add_single diff_diff_add list.simps(9) mset.simps(2) union_commute)
  with Cons show ?case by simp
qed

lemma map_of_deletes:
  "map_of (foldl (\<lambda>al i. AList.delete (f i) al) al is) k =
     (if k \<in> f ` set is then None else map_of al k)"
  by (induction "is" arbitrary: al) (auto simp: delete_conv')

lemma distinct_deletes:
  "distinct (map fst al) \<Longrightarrow>
   distinct (map fst (foldl (\<lambda>al i. AList.delete (f i) al) al is))"
  by (induction "is" arbitrary: al) (simp_all add: distinct_delete)

lemma GetNode_loop_find:
  "GetNode_loop hr h m ns =
     (case find (\<lambda>n. h < n) ns of None \<Rightarrow> m | Some n \<Rightarrow> nodes_at hr n)"
  by (induction ns) simp_all

lemma find_sorted_Min:
  assumes "sorted ns" and "\<exists>n \<in> set ns. h < n"
  shows "find (\<lambda>n. h < n) ns = Some (Min {n \<in> set ns. h < (n :: 32 word)})"
  using assms
proof (induction ns)
  case Nil
  then show ?case by simp
next
  case (Cons a ns)
  show ?case
  proof (cases "h < a")
    case True
    have "Min {n \<in> set (a # ns). h < n} = a"
    proof (rule Min_eqI)
      show "finite {n \<in> set (a # ns). h < n}" by simp
      show "a \<in> {n \<in> set (a # ns). h < n}" using True by simp
      fix y assume "y \<in> {n \<in> set (a # ns). h < n}"
      then show "a \<le> y" using Cons.prems(1) by auto
    qed
    with True show ?thesis by simp
  next
    case False
    then have "{n \<in> set (a # ns). h < n} = {n \<in> set ns. h < n}" by auto
    moreover have "\<exists>n \<in> set ns. h < n" using False Cons.prems(2) by auto
    moreover have "sorted ns" using Cons.prems(1) by simp
    ultimately show ?thesis using False Cons.IH by simp
  qed
qed

lemma ring_inv_entries:
  "ring_inv hr \<Longrightarrow> map_of (nodes hr) k = Some v \<Longrightarrow>
   k \<in> set (sortedNodes hr) \<and> k \<in> set (ring_keys (replicateCount hr) v)"
  by (auto simp: ring_inv_def list_all_iff dest!: map_of_SomeD)

lemma ring_invI:
  assumes "sorted (sortedNodes hr)" and "distinct (map fst (nodes hr))"
    and "\<And>k v. map_of (nodes hr) k = Some v \<Longrightarrow>
           k \<in> set (sortedNodes hr) \<and> k \<in> set (ring_keys (replicateCount hr) v)"
  shows "ring_inv hr"
  using assms by (auto simp: ring_inv_def list_all_iff)

lemma ring_inv_AddNode:
  assumes "ring_inv hr"
  shows "ring_inv (AddNode b hr)"
proof (rule ring_invI)
  show "sorted (sortedNodes (AddNode b hr))" by (simp add: AddNode_eq)
  show "distinct (map fst (nodes (AddNode b hr)))"
    using assms by (simp add: AddNode_eq distinct_updates_const ring_inv_def)
  fix k v
  assume "map_of (nodes (AddNode b hr)) k = Some v"
  then have "(k \<in> set (ring_keys (replicateCount hr) b) \<and> v = b)
           \<or> map_of (nodes hr) k = Some v"
    by (auto simp: AddNode_nodes split: if_splits)
  then show "k \<in> set (sortedNodes (AddNode b hr))
           \<and> k \<in> set (ring_keys (replicateCount (AddNode b hr)) v)"
    using ring_inv_entries [OF assms, of k v] by (auto simp: AddNode_eq)
qed

lemma ring_inv_removeNode:
  assumes "ring_inv hr"
  shows "ring_inv (removeNode b hr)"
proof (rule ring_invI)
  let ?f = "\<lambda>i. hashKey (Itoa i @ b)"
  let ?is = "[0 .. replicateCount hr - 1]"
  show "sorted (sortedNodes (removeNode b hr))"
    using assms by (simp add: removeNode_eq sorted_remove1s ring_inv_def)
  show "distinct (map fst (nodes (removeNode b hr)))"
    using assms by (simp add: removeNode_eq distinct_deletes ring_inv_def)
  fix k v
  assume "map_of (nodes (removeNode b hr)) k = Some v"
  then have k: "k \<notin> ?f ` set ?is" and m: "map_of (nodes hr) k = Some v"
    by (auto simp: removeNode_eq map_of_deletes split: if_splits)
  from ring_inv_entries [OF assms m]
  have s: "k \<in> set (sortedNodes hr)" and r: "k \<in> set (ring_keys (replicateCount hr) v)"
    by simp_all
  have "count (mset (foldl (\<lambda>xs i. remove1 (?f i) xs) (sortedNodes hr) ?is)) k =
          count (mset (sortedNodes hr)) k - count (mset (map ?f ?is)) k"
    by (simp add: mset_remove1s)
  moreover have "count (mset (map ?f ?is)) k = 0"
    using k by (simp add: count_eq_zero_iff del: mset_map)
  moreover have "0 < count (mset (sortedNodes hr)) k" using s by simp
  ultimately have "0 < count (mset (foldl (\<lambda>xs i. remove1 (?f i) xs) (sortedNodes hr) ?is)) k"
    by simp
  then have "k \<in> set (sortedNodes (removeNode b hr))"
    by (simp add: removeNode_eq del: count_mset_0_iff)
  with r show "k \<in> set (sortedNodes (removeNode b hr))
             \<and> k \<in> set (ring_keys (replicateCount (removeNode b hr)) v)"
    by (simp add: removeNode_eq)
qed

lemma ring_inv_addNodes: "ring_inv hr \<Longrightarrow> ring_inv (addNodes ns hr)"
  unfolding addNodes_def by (induction ns arbitrary: hr) (simp_all add: ring_inv_AddNode)

lemma ring_inv_New: "ring_inv (New ns r)"
  unfolding New_def by (rule ring_inv_addNodes) (simp add: ring_inv_def)

lemma ring_inv_nonempty:
  assumes "ring_inv hr" and "nodes hr \<noteq> []"
  shows "sortedNodes hr \<noteq> []"
proof -
  obtain k v ns where "nodes hr = (k, v) # ns" using assms(2) by (cases "nodes hr") auto
  then have "k \<in> set (sortedNodes hr)" using assms(1) by (simp add: ring_inv_def)
  then show ?thesis by auto
qed

text \<open>
  C5.  On a ring whose map is empty \<open>GetNode\<close> returns the empty string.  On any other
  ring built by \<open>New\<close>, \<open>AddNode\<close> and \<open>removeNode\<close> it returns the address under the
  first key of the slice that is strictly greater than the hash of the argument (the
  least such key, the slice being in ascending order), and the address under the
  first key of the slice when no key is greater.  After \<open>AddNode b\<close> the slice is the
  old one with the \<open>replicateCount\<close> keys \<open>hashKey (Itoa i @ b)\<close> sorted in, and the keys
  that the map sends to \<open>b\<close> are exactly these keys; \<open>replicateCount\<close> many when they
  are pairwise distinct.
\<close>

theorem GetNode_first_greater_AddNode_keys:
  assumes "ring_inv hr"
  shows "(nodes hr = [] \<longrightarrow> GetNode key hr = Inr [])
       \<and> (nodes hr \<noteq> [] \<longrightarrow>
            sortedNodes hr \<noteq> []
          \<and> GetNode key hr =
              Inr (nodes_at hr
                    (case find (\<lambda>n. hashKey key < n) (sortedNodes hr) of
                       Some n \<Rightarrow> n | None \<Rightarrow> sortedNodes hr ! 0))
          \<and> ((\<exists>n \<in> set (sortedNodes hr). hashKey key < n) \<longrightarrow>
               find (\<lambda>n. hashKey key < n) (sortedNodes hr) =
                 Some (Min {n \<in> set (sortedNodes hr). hashKey key < n})))
       \<and> sortedNodes (AddNode b hr) = sort (sortedNodes hr @ ring_keys (replicateCount hr) b)
       \<and> ring_keys (replicateCount hr) b =
            map (\<lambda>i. hashKey (Itoa i @ b)) [0 .. replicateCount hr - 1]
       \<and> length (ring_keys (replicateCount hr) b) = nat (replicateCount hr)
       \<and> {k. map_of (nodes (AddNode b hr)) k = Some b} = set (ring_keys (replicateCount hr) b)
       \<and> (\<forall>k. k \<notin> set (ring_keys (replicateCount hr) b) \<longrightarrow>
               map_of (nodes (AddNode b hr)) k = map_of (nodes hr) k)
       \<and> (distinct (ring_keys (replicateCount hr) b) \<longrightarrow>
            card {k. map_of (nodes (AddNode b hr)) k = Some b} = nat (replicateCount hr))
       \<and> ring_inv (AddNode b hr)"
proof (intro conjI impI allI)
  assume "nodes hr = []"
  then show "GetNode key hr = Inr []" by (simp add: GetNode_def)
next
  assume ne: "nodes hr \<noteq> []"
  from ring_inv_nonempty [OF assms ne] show s: "sortedNodes hr \<noteq> []" .
  then obtain n0 ns where c: "sortedNodes hr = n0 # ns" by (cases "sortedNodes hr") auto
  show "GetNode key hr =
          Inr (nodes_at hr
                (case find (\<lambda>n. hashKey key < n) (sortedNodes hr) of
                   Some n \<Rightarrow> n | None \<Rightarrow> sortedNodes hr ! 0))"
    using ne c by (simp add: GetNode_def GetNode_loop_find Let_def split: option.splits)
next
  assume "nodes hr \<noteq> []" and "\<exists>n \<in> set (sortedNodes hr). hashKey key < n"
  then show "find (\<lambda>n. hashKey key < n) (sortedNodes hr) =
               Some (Min {n \<in> set (sortedNodes hr). hashKey key < n})"
    using assms by (simp add: find_sorted_Min ring_inv_def)
next
  show "sortedNodes (AddNode b hr) = sort (sortedNodes hr @ ring_keys (replicateCount hr) b)"
    by (simp add: AddNode_eq)
next
  show "ring_keys (replicateCount hr) b =
          map (\<lambda>i. hashKey (Itoa i @ b)) [0 .. replicateCount hr - 1]"
    by (simp add: ring_keys_def)
next
  show "length (ring_keys (replicateCount hr) b) = nat (replicateCount hr)"
    by (simp add: ring_keys_def)
next
  show k: "{k. map_of (nodes (AddNode b hr)) k = Some b} = set (ring_keys (replicateCount hr) b)"
    using ring_inv_entries [OF assms] by (auto simp: AddNode_nodes)
  show "card {k. map_of (nodes (AddNode b hr)) k = Some b} = nat (replicateCount hr)"
    if "distinct (ring_keys (replicateCount hr) b)"
  proof -
    have "card (set (ring_keys (replicateCount hr) b)) = length (ring_keys (replicateCount hr) b)"
      using that by (rule distinct_card)
    then show ?thesis unfolding k by (simp add: ring_keys_def)
  qed
next
  fix k
  assume "k \<notin> set (ring_keys (replicateCount hr) b)"
  then show "map_of (nodes (AddNode b hr)) k = map_of (nodes hr) k"
    by (simp add: AddNode_nodes)
next
  show "ring_inv (AddNode b hr)" using assms by (rule ring_inv_AddNode)
qed

lemma hashKey_0b: "hashKey ''0b'' = 1025713272"
  unfolding hashKey_def by code_simp

lemma hashKey_1b: "hashKey ''1b'' = 607655225"
  unfolding hashKey_def by code_simp

lemma hashKey_x: "hashKey ''x'' = 2363233923"
  unfolding hashKey_def by code_simp

lemma hashKey_y: "hashKey ''y'' = 4225443349"
  unfolding hashKey_def by code_simp

lemma Itoa_0_1: "Itoa 0 = ''0''" "Itoa 1 = ''1''"
  by code_simp+

lemma upto_0_1: "[0 .. 1] = [0, 1 :: int]"
  by code_simp

lemma ring_a_value:
  "ring_a = \<lparr>replicateCount = 2, nodes = [(2754246082, ''a''), (3174122627, ''a'')],
             sortedNodes = [2754246082, 3174122627]\<rparr>"
  by (simp add: ring_a_def New_def addNodes_def AddNode_def AddNode_step_def Let_def
      upto_0_1 Itoa_0_1 hashKey_0a hashKey_1a)

lemma ring_ab_value:
  "ring_ab = \<lparr>replicateCount = 2,
              nodes = [(2754246082, ''a''), (3174122627, ''a''),
                       (1025713272, ''b''), (607655225, ''b'')],
              sortedNodes = [607655225, 1025713272, 2754246082, 3174122627]\<rparr>"
  by (simp add: ring_ab_def New_def addNodes_def AddNode_def AddNode_step_def Let_def
      upto_0_1 Itoa_0_1 hashKey_0a hashKey_1a hashKey_0b hashKey_1b)

theorem GetNode_first_greater_AddNode_keys_witness:
  "ring_inv ring_ab
   \<and> GetNode ''x'' ring_ab = Inr ''a''
   \<and> GetNode ''y'' ring_ab = Inr ''b''
   \<and> GetNode ''x'' (New [] 2) = Inr []
   \<and> sortedNodes (AddNode ''b'' ring_a) = [607655225, 1025713272, 2754246082, 3174122627]
   \<and> {k. map_of (nodes (AddNode ''b'' ring_a)) k = Some ''b''} = {1025713272, 607655225}"
proof -
  have i: "ring_inv ring_ab" "ring_inv ring_a" "ring_inv (New [] 2)"
    by (simp_all add: ring_ab_def ring_a_def ring_inv_New)
  have n: "nodes ring_ab \<noteq> []" "nodes (New [] 2) = []"
    by (simp_all add: ring_ab_value New_def addNodes_def)
  have k: "ring_keys (replicateCount ring_a) ''b'' = [1025713272, 607655225]"
    by (simp add: ring_keys_def ring_a_value upto_0_1 Itoa_0_1 hashKey_0b hashKey_1b)
  note x = GetNode_first_greater_AddNode_keys [OF i(1), of "''x''" "''b''"]
  note y = GetNode_first_greater_AddNode_keys [OF i(1), of "''y''" "''b''"]
  note e = GetNode_first_greater_AddNode_keys [OF i(3), of "''x''" "''b''"]
  note a = GetNode_first_greater_AddNode_keys [OF i(2), of "''x''" "''b''"]
  have 1: "GetNode ''x'' ring_ab = Inr ''a''"
    using x n(1) by (simp add: ring_ab_value hashKey_x nodes_at_def)
  have 2: "GetNode ''y'' ring_ab = Inr ''b''"
    using y n(1) by (simp add: ring_ab_value hashKey_y nodes_at_def)
  have 3: "GetNode ''x'' (New [] 2) = Inr []"
    using e n(2) by simp
  have 4: "sortedNodes (AddNode ''b'' ring_a) = [607655225, 1025713272, 2754246082, 3174122627]"
    using a k by (simp add: ring_a_value)
  have 5: "{k. map_of (nodes (AddNode ''b'' ring_a)) k = Some ''b''} = {1025713272, 607655225}"
    using a k by simp
  from i(1) 1 2 3 4 5 show ?thesis by simp
qed

text \<open>
  C9.  On a ring whose slice is in ascending order (as it is on every ring built by
  \<open>New\<close>, \<open>AddNode\<close> and \<open>removeNode\<close>), for an address \<open>b\<close> whose keys are pairwise
  distinct and are neither keys of the map nor entries of the slice, \<open>AddNode b\<close>
  followed by \<open>removeNode b\<close> gives back the map from keys to addresses and the slice
  as they were.
\<close>

theorem AddNode_removeNode_restores:
  assumes "sorted (sortedNodes hr)"
    and "distinct (ring_keys (replicateCount hr) b)"
    and "set (ring_keys (replicateCount hr) b) \<inter> (set (sortedNodes hr) \<union> fst ` set (nodes hr)) = {}"
  shows "map_of (nodes (removeNode b (AddNode b hr))) = map_of (nodes hr)
       \<and> sortedNodes (removeNode b (AddNode b hr)) = sortedNodes hr
       \<and> replicateCount (removeNode b (AddNode b hr)) = replicateCount hr"
proof (intro conjI)
  let ?f = "\<lambda>i. hashKey (Itoa i @ b)"
  let ?is = "[0 .. replicateCount hr - 1]"
  let ?K = "ring_keys (replicateCount hr) b"
  have K: "?K = map ?f ?is" by (simp add: ring_keys_def)
  show "replicateCount (removeNode b (AddNode b hr)) = replicateCount hr"
    by (simp add: removeNode_eq AddNode_eq)
  show "map_of (nodes (removeNode b (AddNode b hr))) = map_of (nodes hr)"
  proof (rule ext)
    fix k
    have "k \<in> ?f ` set ?is \<Longrightarrow> map_of (nodes hr) k = None"
      using assms(3) by (auto simp: K map_of_eq_None_iff)
    then show "map_of (nodes (removeNode b (AddNode b hr))) k = map_of (nodes hr) k"
      by (simp add: removeNode_eq AddNode_eq map_of_deletes map_of_updates_const)
  qed
  let ?F = "foldl (\<lambda>xs i. remove1 (?f i) xs) (sort (sortedNodes hr @ ?K)) ?is"
  have "sorted ?F" by (simp add: sorted_remove1s)
  moreover have "mset ?F = mset (sortedNodes hr)"
    by (simp add: mset_remove1s K)
  ultimately have "sort (sortedNodes hr) = ?F" by (rule properties_for_sort [rotated])
  moreover have "sort (sortedNodes hr) = sortedNodes hr"
    using assms(1) by (rule sorted_sort_id)
  ultimately show "sortedNodes (removeNode b (AddNode b hr)) = sortedNodes hr"
    by (simp add: removeNode_eq AddNode_eq)
qed

theorem AddNode_removeNode_restores_witness:
  "sorted (sortedNodes ring_a)
   \<and> ring_keys (replicateCount ring_a) ''b'' = [1025713272, 607655225]
   \<and> map_of (nodes (removeNode ''b'' (AddNode ''b'' ring_a))) = map_of (nodes ring_a)
   \<and> sortedNodes (removeNode ''b'' (AddNode ''b'' ring_a)) = [2754246082, 3174122627]
   \<and> sortedNodes (AddNode ''b'' ring_a) = [607655225, 1025713272, 2754246082, 3174122627]"
proof -
  have k: "ring_keys (replicateCount ring_a) ''b'' = [1025713272, 607655225]"
    by (simp add: ring_keys_def ring_a_value upto_0_1 Itoa_0_1 hashKey_0b hashKey_1b)
  have s: "sorted (sortedNodes ring_a)" by (simp add: ring_a_value)
  have d: "distinct (ring_keys (replicateCount ring_a) ''b'')" by (simp add: k)
  have i: "set (ring_keys (replicateCount ring_a) ''b'')
             \<inter> (set (sortedNodes ring_a) \<union> fst ` set (nodes ring_a)) = {}"
    unfolding k by (simp add: ring_a_value)
  have a: "sortedNodes (AddNode ''b'' ring_a) = [607655225, 1025713272, 2754246082, 3174122627]"
    using k by (simp add: AddNode_eq ring_a_value)
  from AddNode_removeNode_restores [OF s d i] k s a show ?thesis
    by (simp add: ring_a_value)
qed

end
